theory Spec2Isabelle
  imports Main "HOL-Library.Word"
begin

section \<open>Values shared by the host side and the panel side\<close>

type_synonym byte = "8 word"

text \<open>
  \<^verbatim>\<open>interface PawDrawEdit { color: string; stroke: ReadonlyArray<[number, number]> }\<close>.
  The code never inspects the coordinates, so they are kept as integers.
\<close>

record PawDrawEdit =
  color :: string
  stroke :: "(int \<times> int) list"

text \<open>
  A \<^verbatim>\<open>vscode.Uri\<close>, reduced to the two parts the code looks at: the scheme (compared with
  \<^verbatim>\<open>'untitled'\<close>) and the rest. \<^verbatim>\<open>toString()\<close> is the key of the webview collection.
\<close>

record Uri =
  scheme :: string
  path :: string

definition Uri_toString :: "Uri \<Rightarrow> string" where
  "Uri_toString u = scheme u @ '':'' @ path u"

text \<open>
  Every \<^verbatim>\<open>throw\<close> and every rejected promise is a value; an \<^verbatim>\<open>await\<close> that is never
  resumed is the value \<open>Pending\<close>.
\<close>

datatype error = FileSystemError | NoWebviewError

datatype 'a outcome = Returned 'a | Threw error | Pending

section \<open>The storage behind \<^verbatim>\<open>vscode.workspace.fs\<close>\<close>

datatype fs_op = ReadOp Uri | WriteOp Uri "byte list" | DeleteOp Uri

record FileSystem =
  files :: "Uri \<rightharpoonup> byte list"
  writable :: "Uri \<Rightarrow> bool"
  trace :: "fs_op list"

definition fs_readFile :: "FileSystem \<Rightarrow> Uri \<Rightarrow> byte list outcome \<times> FileSystem" where
  "fs_readFile fs u =
     ((case files fs u of None \<Rightarrow> Threw FileSystemError | Some d \<Rightarrow> Returned d),
      fs\<lparr>trace := trace fs @ [ReadOp u]\<rparr>)"

definition fs_writeFile :: "FileSystem \<Rightarrow> Uri \<Rightarrow> byte list \<Rightarrow> unit outcome \<times> FileSystem" where
  "fs_writeFile fs u d =
     (if writable fs u
      then (Returned (), fs\<lparr>files := (files fs)(u \<mapsto> d), trace := trace fs @ [WriteOp u d]\<rparr>)
      else (Threw FileSystemError, fs))"

definition fs_delete :: "FileSystem \<Rightarrow> Uri \<Rightarrow> unit outcome \<times> FileSystem" where
  "fs_delete fs u =
     (case files fs u of
        None \<Rightarrow> (Threw FileSystemError, fs)
      | Some d \<Rightarrow> (Returned (), fs\<lparr>files := (files fs)(u := None), trace := trace fs @ [DeleteOp u]\<rparr>))"

section \<open>The document: class \<^verbatim>\<open>FitsFile\<close>\<close>

text \<open>
  \<^verbatim>\<open>_edits\<close> and \<^verbatim>\<open>_savedEdits\<close> are references to JavaScript arrays: \<^verbatim>\<open>push\<close> and \<^verbatim>\<open>pop\<close>
  mutate the array in place and an assignment copies the reference only. The arrays live
  in the store \<open>arrays\<close>, \<open>nextRef\<close> is the next unused address, and the two fields hold
  addresses. The two event emitters are modelled by the lists of the events they fired.
\<close>

datatype action = UndoAction | RedoAction PawDrawEdit

record ChangeEvent =
  label :: string
  undo :: action
  redo :: action

record ContentEvent =
  content :: "byte list option"
  event_edits :: nat

record 'p FitsFile =
  uri :: Uri
  documentData :: "byte list"
  edits :: nat
  savedEdits :: nat
  delegate :: "'p \<Rightarrow> byte list outcome \<times> 'p"
  arrays :: "nat \<Rightarrow> PawDrawEdit list"
  nextRef :: nat
  onDidChangeDocument :: "ContentEvent list"
  onDidChange :: "ChangeEvent list"

text \<open>The contents of the edit log and of the saved snapshot, read through the store.\<close>

definition edit_log :: "'p FitsFile \<Rightarrow> PawDrawEdit list" where
  "edit_log d = arrays d (edits d)"

definition saved_log :: "'p FitsFile \<Rightarrow> PawDrawEdit list" where
  "saved_log d = arrays d (savedEdits d)"

text \<open>The constructor: both field initialisers \<^verbatim>\<open>[]\<close> allocate an array of their own.\<close>

definition new_FitsFile ::
  "Uri \<Rightarrow> byte list \<Rightarrow> ('p \<Rightarrow> byte list outcome \<times> 'p) \<Rightarrow> 'p FitsFile" where
  "new_FitsFile u initialContent dlg =
     \<lparr>uri = u, documentData = initialContent, edits = 0, savedEdits = 1,
      delegate = dlg, arrays = (\<lambda>r. []), nextRef = 2,
      onDidChangeDocument = [], onDidChange = []\<rparr>"

definition readFile :: "FileSystem \<Rightarrow> Uri \<Rightarrow> byte list outcome \<times> FileSystem" where
  "readFile fs u =
     (if scheme u = ''untitled'' then (Returned [], fs) else fs_readFile fs u)"

text \<open>
  \<^verbatim>\<open>vscode.Uri.parse\<close> belongs to the host, not to this code: \<open>create\<close> takes it as its
  first argument \<open>parse\<close>, and nothing below depends on what it computes.
\<close>

definition create ::
  "(string \<Rightarrow> Uri) \<Rightarrow> FileSystem \<Rightarrow> Uri \<Rightarrow> string option
     \<Rightarrow> ('p \<Rightarrow> byte list outcome \<times> 'p) \<Rightarrow> 'p FitsFile outcome \<times> FileSystem" where
  "create parse fs u backupId dlg =
     (let dataFile = (case backupId of Some b \<Rightarrow> parse b | None \<Rightarrow> u)
      in case readFile fs dataFile of
           (Returned fileData, fs') \<Rightarrow> (Returned (new_FitsFile u fileData dlg), fs')
         | (Threw e, fs') \<Rightarrow> (Threw e, fs')
         | (Pending, fs') \<Rightarrow> (Pending, fs'))"

text \<open>\<^verbatim>\<open>Array.prototype.push\<close> and \<^verbatim>\<open>pop\<close> on the array at an address; \<^verbatim>\<open>pop\<close> on an empty
  array leaves it empty.\<close>

definition array_push :: "nat \<Rightarrow> PawDrawEdit \<Rightarrow> 'p FitsFile \<Rightarrow> 'p FitsFile" where
  "array_push r e d = d\<lparr>arrays := (arrays d)(r := arrays d r @ [e])\<rparr>"

definition array_pop :: "nat \<Rightarrow> 'p FitsFile \<Rightarrow> 'p FitsFile" where
  "array_pop r d = d\<lparr>arrays := (arrays d)(r := butlast (arrays d r))\<rparr>"

definition fire_content :: "byte list option \<Rightarrow> 'p FitsFile \<Rightarrow> 'p FitsFile" where
  "fire_content c d =
     d\<lparr>onDidChangeDocument := onDidChangeDocument d @ [\<lparr>content = c, event_edits = edits d\<rparr>]\<rparr>"

definition makeEdit :: "'p FitsFile \<Rightarrow> PawDrawEdit \<Rightarrow> 'p FitsFile" where
  "makeEdit d edit =
     (let d1 = array_push (edits d) edit d
      in d1\<lparr>onDidChange := onDidChange d1 @
               [\<lparr>label = ''Stroke'', undo = UndoAction, redo = RedoAction edit\<rparr>]\<rparr>)"

text \<open>
  Calling one of the two closures of a change event. Both read \<^verbatim>\<open>this._edits\<close> when they
  run, not when they were created; the \<^verbatim>\<open>redo\<close> closure captures its \<^verbatim>\<open>edit\<close>.
\<close>

fun invoke :: "action \<Rightarrow> 'p FitsFile \<Rightarrow> 'p FitsFile" where
  "invoke UndoAction d = fire_content None (array_pop (edits d) d)"
| "invoke (RedoAction edit) d = fire_content None (array_push (edits d) edit d)"

definition invoke_all :: "action list \<Rightarrow> 'p FitsFile \<Rightarrow> 'p FitsFile" where
  "invoke_all as d = foldl (\<lambda>s a. invoke a s) d as"

text \<open>The change events fired by a run that started in \<open>d\<close> and ended in \<open>d'\<close>.\<close>

definition emitted :: "'p FitsFile \<Rightarrow> 'p FitsFile \<Rightarrow> ChangeEvent list" where
  "emitted d d' = drop (length (onDidChange d)) (onDidChange d')"

text \<open>
  \<^verbatim>\<open>saveAs\<close>: the delegate is awaited first, the cancellation token is read once after
  that (\<open>cancelled\<close> is what \<^verbatim>\<open>isCancellationRequested\<close> yields then), and the write comes
  last. The environment is the state the delegate works on and the storage.
\<close>

definition saveAs ::
  "'p FitsFile \<Rightarrow> Uri \<Rightarrow> bool \<Rightarrow> 'p \<times> FileSystem \<Rightarrow> unit outcome \<times> 'p \<times> FileSystem" where
  "saveAs d targetResource cancelled env =
     (case delegate d (fst env) of
        (Threw e, p') \<Rightarrow> (Threw e, p', snd env)
      | (Pending, p') \<Rightarrow> (Pending, p', snd env)
      | (Returned fileData, p') \<Rightarrow>
          if cancelled then (Returned (), p', snd env)
          else (case fs_writeFile (snd env) targetResource fileData of
                  (r, fs') \<Rightarrow> (r, p', fs')))"

text \<open>\<^verbatim>\<open>Array.from(this._edits)\<close> allocates a new array holding a copy of the edit log.\<close>

definition snapshot_edits :: "'p FitsFile \<Rightarrow> 'p FitsFile" where
  "snapshot_edits d =
     d\<lparr>savedEdits := nextRef d,
       arrays := (arrays d)(nextRef d := arrays d (edits d)),
       nextRef := Suc (nextRef d)\<rparr>"

definition save ::
  "'p FitsFile \<Rightarrow> bool \<Rightarrow> 'p \<times> FileSystem \<Rightarrow> unit outcome \<times> 'p FitsFile \<times> 'p \<times> FileSystem" where
  "save d cancelled env =
     (case saveAs d (uri d) cancelled env of
        (Returned u, env') \<Rightarrow> (Returned (), snapshot_edits d, env')
      | (Threw e, env') \<Rightarrow> (Threw e, d, env')
      | (Pending, env') \<Rightarrow> (Pending, d, env'))"

text \<open>\<^verbatim>\<open>revert\<close>: \<^verbatim>\<open>this._edits = this._savedEdits\<close> copies the reference, not the array.\<close>

definition revert ::
  "'p FitsFile \<Rightarrow> FileSystem \<Rightarrow> unit outcome \<times> 'p FitsFile \<times> FileSystem" where
  "revert d fs =
     (case readFile fs (uri d) of
        (Returned diskContent, fs') \<Rightarrow>
          (Returned (),
           fire_content (Some diskContent)
             (d\<lparr>documentData := diskContent, edits := savedEdits d\<rparr>),
           fs')
      | (Threw e, fs') \<Rightarrow> (Threw e, d, fs')
      | (Pending, fs') \<Rightarrow> (Pending, d, fs'))"

record CustomDocumentBackup =
  backup_id :: string
  backup_destination :: Uri

definition backup ::
  "'p FitsFile \<Rightarrow> Uri \<Rightarrow> bool \<Rightarrow> 'p \<times> FileSystem
     \<Rightarrow> CustomDocumentBackup outcome \<times> 'p \<times> FileSystem" where
  "backup d destination cancelled env =
     (case saveAs d destination cancelled env of
        (Returned u, env') \<Rightarrow>
          (Returned \<lparr>backup_id = Uri_toString destination, backup_destination = destination\<rparr>, env')
      | (Threw e, env') \<Rightarrow> (Threw e, env')
      | (Pending, env') \<Rightarrow> (Pending, env'))"

text \<open>The \<^verbatim>\<open>delete\<close> closure of a backup: the error of the deletion is swallowed.\<close>

definition backup_delete :: "CustomDocumentBackup \<Rightarrow> FileSystem \<Rightarrow> FileSystem" where
  "backup_delete b fs = snd (fs_delete fs (backup_destination b))"

section \<open>The webview collection\<close>

text \<open>
  A \<^verbatim>\<open>Set\<close> of entry objects iterates in insertion order, and every \<^verbatim>\<open>add\<close> makes a new
  entry object, so the set is the list of its entries. A panel is a handle (a number).
\<close>

type_synonym WebviewCollection = "(string \<times> nat) list"

definition WebviewCollection_get :: "WebviewCollection \<Rightarrow> Uri \<Rightarrow> nat list" where
  "WebviewCollection_get ws u = map snd (filter (\<lambda>entry. fst entry = Uri_toString u) ws)"

definition WebviewCollection_add :: "WebviewCollection \<Rightarrow> Uri \<Rightarrow> nat \<Rightarrow> WebviewCollection" where
  "WebviewCollection_add ws u webviewPanel = ws @ [(Uri_toString u, webviewPanel)]"

text \<open>Disposing a panel runs the hooks \<^verbatim>\<open>add\<close> installed on it: its entries are deleted.\<close>

definition WebviewCollection_dispose :: "WebviewCollection \<Rightarrow> nat \<Rightarrow> WebviewCollection" where
  "WebviewCollection_dispose ws webviewPanel = filter (\<lambda>entry. snd entry \<noteq> webviewPanel) ws"

section \<open>The message bridge and the provider: class \<^verbatim>\<open>FitsProvider\<close>\<close>

datatype body = EmptyBody | UntitledBody bool bool | ValueBody "nat list"

datatype outgoing = Notify string body | Request string nat body

datatype incoming = Ready | Stroke PawDrawEdit | Response nat "int list" | Other string

text \<open>
  \<^verbatim>\<open>_callbacks\<close> maps a request id to the \<^verbatim>\<open>resolve\<close> function of the promise made for it.
  A promise is an index into \<open>promises\<close>: \<open>None\<close> while pending, \<open>Some v\<close> once fulfilled
  with \<open>v\<close>. Calling \<^verbatim>\<open>resolve\<close> on a promise that is already fulfilled changes nothing.
  \<open>posted\<close> lists the messages handed to \<^verbatim>\<open>panel.webview.postMessage\<close>, with their panel.
\<close>

record FitsProvider =
  webviews :: WebviewCollection
  requestId :: nat
  callbacks :: "nat \<rightharpoonup> nat"
  promises :: "int list option list"
  posted :: "(nat \<times> outgoing) list"

definition new_FitsProvider :: FitsProvider where
  "new_FitsProvider =
     \<lparr>webviews = [], requestId = 1, callbacks = Map.empty, promises = [], posted = []\<rparr>"

definition resolve_promise :: "nat \<Rightarrow> int list \<Rightarrow> int list option list \<Rightarrow> int list option list" where
  "resolve_promise k v ps =
     (if k < length ps
      then (case ps ! k of None \<Rightarrow> ps[k := Some v] | Some w \<Rightarrow> ps)
      else ps)"

definition postMessageWithResponse ::
  "FitsProvider \<Rightarrow> nat \<Rightarrow> string \<Rightarrow> body \<Rightarrow> nat \<times> FitsProvider" where
  "postMessageWithResponse p panel type b =
     (let rid = requestId p; k = length (promises p)
      in (k, p\<lparr>requestId := rid + 1,
                callbacks := (callbacks p)(rid \<mapsto> k),
                promises := promises p @ [None],
                posted := posted p @ [(panel, Request type rid b)]\<rparr>))"

definition postMessage :: "FitsProvider \<Rightarrow> nat \<Rightarrow> string \<Rightarrow> body \<Rightarrow> FitsProvider" where
  "postMessage p panel type b = p\<lparr>posted := posted p @ [(panel, Notify type b)]\<rparr>"

text \<open>The \<^verbatim>\<open>'response'\<close> case of \<^verbatim>\<open>onMessage\<close>: \<^verbatim>\<open>callback?.(message.body)\<close>.\<close>

definition onResponse :: "FitsProvider \<Rightarrow> nat \<Rightarrow> int list \<Rightarrow> FitsProvider" where
  "onResponse p rid b =
     (case callbacks p rid of
        None \<Rightarrow> p
      | Some k \<Rightarrow> p\<lparr>promises := resolve_promise k b (promises p)\<rparr>)"

fun onMessage ::
  "FitsProvider \<times> 'p FitsFile \<Rightarrow> incoming \<Rightarrow> FitsProvider \<times> 'p FitsFile" where
  "onMessage (p, d) (Stroke e) = (p, makeEdit d e)"
| "onMessage (p, d) (Response rid b) = (onResponse p rid b, d)"
| "onMessage (p, d) Ready = (p, d)"
| "onMessage (p, d) (Other t) = (p, d)"

text \<open>
  The delegate built by \<^verbatim>\<open>openCustomDocument\<close>. What a panel does with a request is not
  host code: \<open>reply panel\<close> is the body of the \<^verbatim>\<open>'response'\<close> message the panel sends back
  for the request, with the request's id, or \<open>None\<close> when it never answers.
  \<^verbatim>\<open>new Uint8Array(response)\<close> reduces every number modulo 256.
\<close>

definition getFileData ::
  "(nat \<Rightarrow> int list option) \<Rightarrow> Uri \<Rightarrow> FitsProvider \<Rightarrow> byte list outcome \<times> FitsProvider" where
  "getFileData reply u p =
     (case WebviewCollection_get (webviews p) u of
        [] \<Rightarrow> (Threw NoWebviewError, p)
      | panel # others \<Rightarrow>
          (let (k, p1) = postMessageWithResponse p panel ''getFileData'' EmptyBody
           in case reply panel of
                None \<Rightarrow> (Pending, p1)
              | Some b \<Rightarrow>
                  (let p2 = onResponse p1 (requestId p) b
                   in case promises p2 ! k of
                        None \<Rightarrow> (Pending, p2)
                      | Some response \<Rightarrow> (Returned (map word_of_int response), p2))))"

definition openCustomDocument ::
  "(string \<Rightarrow> Uri) \<Rightarrow> (nat \<Rightarrow> int list option) \<Rightarrow> FileSystem \<Rightarrow> Uri \<Rightarrow> string option
     \<Rightarrow> FitsProvider FitsFile outcome \<times> FileSystem" where
  "openCustomDocument parse reply fs u backupId =
     create parse fs u backupId (getFileData reply u)"

definition resolveCustomEditor :: "FitsProvider \<Rightarrow> 'p FitsFile \<Rightarrow> nat \<Rightarrow> FitsProvider" where
  "resolveCustomEditor p d webviewPanel =
     p\<lparr>webviews := WebviewCollection_add (webviews p) (uri d) webviewPanel\<rparr>"

text \<open>
  What happens to one provider and its document, one event at a time: a request is sent,
  a notification is posted, a message from a panel arrives and goes through
  \<^verbatim>\<open>onMessage\<close>, or a panel is registered by \<^verbatim>\<open>resolveCustomEditor\<close>.
\<close>

datatype traffic =
    Request_sent nat string body
  | Message_posted nat string body
  | Message_received incoming
  | Editor_resolved nat

fun traffic_step :: "FitsProvider \<times> 'p FitsFile \<Rightarrow> traffic \<Rightarrow> FitsProvider \<times> 'p FitsFile" where
  "traffic_step (p, d) (Request_sent panel t b) = (snd (postMessageWithResponse p panel t b), d)"
| "traffic_step (p, d) (Message_posted panel t b) = (postMessage p panel t b, d)"
| "traffic_step (p, d) (Message_received m) = onMessage (p, d) m"
| "traffic_step (p, d) (Editor_resolved panel) = (resolveCustomEditor p d panel, d)"

definition traffic_run ::
  "FitsProvider \<times> 'p FitsFile \<Rightarrow> traffic list \<Rightarrow> FitsProvider \<times> 'p FitsFile" where
  "traffic_run s evs = foldl traffic_step s evs"

text \<open>
  Every resolver in \<^verbatim>\<open>_callbacks\<close> belongs to a promise that exists; and the request \<open>N\<close>
  is the one and only key of the resolver of promise \<open>k\<close>.
\<close>

definition bridge_inv :: "FitsProvider \<Rightarrow> bool" where
  "bridge_inv p = (\<forall>rid k. callbacks p rid = Some k \<longrightarrow> k < length (promises p))"

definition tracked :: "nat \<Rightarrow> nat \<Rightarrow> FitsProvider \<Rightarrow> bool" where
  "tracked N k p =
     (callbacks p N = Some k \<and> k < length (promises p) \<and> N < requestId p
      \<and> (\<forall>rid. callbacks p rid = Some k \<longrightarrow> rid = N))"

section \<open>The transport of the file content to the panel\<close>

text \<open>
  \<^verbatim>\<open>documentData\<close> is always a \<^verbatim>\<open>Uint8Array\<close> made by \<^verbatim>\<open>new Uint8Array(...)\<close>, so its
  \<^verbatim>\<open>buffer\<close> holds exactly its bytes.
  \<^verbatim>\<open>Buffer.from(bytes).toString()\<close> decodes the bytes as UTF-8: a well-formed sequence gives
  its code point, and every maximal ill-formed part gives U+FFFD. The decoder is the
  byte-at-a-time automaton of the Encoding Standard: the state holds the number of
  continuation bytes still needed, the code point so far and the bounds of the next byte.
  A string is the list of its code points.
\<close>

record utf8_state =
  needed :: nat
  code_point :: nat
  lower :: nat
  upper :: nat

definition utf8_idle :: utf8_state where
  "utf8_idle = \<lparr>needed = 0, code_point = 0, lower = 0x80, upper = 0xBF\<rparr>"

definition utf8_lead :: "nat \<Rightarrow> nat list \<times> utf8_state" where
  "utf8_lead n =
     (if n \<le> 0x7F then ([n], utf8_idle)
      else if 0xC2 \<le> n \<and> n \<le> 0xDF
        then ([], \<lparr>needed = 1, code_point = n mod 32, lower = 0x80, upper = 0xBF\<rparr>)
      else if 0xE0 \<le> n \<and> n \<le> 0xEF
        then ([], \<lparr>needed = 2, code_point = n mod 16,
                   lower = (if n = 0xE0 then 0xA0 else 0x80),
                   upper = (if n = 0xED then 0x9F else 0xBF)\<rparr>)
      else if 0xF0 \<le> n \<and> n \<le> 0xF4
        then ([], \<lparr>needed = 3, code_point = n mod 8,
                   lower = (if n = 0xF0 then 0x90 else 0x80),
                   upper = (if n = 0xF4 then 0x8F else 0xBF)\<rparr>)
      else ([0xFFFD], utf8_idle))"

definition utf8_step :: "utf8_state \<Rightarrow> nat \<Rightarrow> nat list \<times> utf8_state" where
  "utf8_step st n =
     (if needed st = 0 then utf8_lead n
      else if lower st \<le> n \<and> n \<le> upper st
        then (let cp = code_point st * 64 + n mod 64
              in if needed st = 1 then ([cp], utf8_idle)
                 else ([], \<lparr>needed = needed st - 1, code_point = cp,
                            lower = 0x80, upper = 0xBF\<rparr>))
      else (case utf8_lead n of (out, st') \<Rightarrow> (0xFFFD # out, st')))"

fun utf8_run :: "utf8_state \<Rightarrow> byte list \<Rightarrow> nat list" where
  "utf8_run st [] = (if needed st = 0 then [] else [0xFFFD])"
| "utf8_run st (b # bs) = (case utf8_step st (unat b) of (out, st') \<Rightarrow> out @ utf8_run st' bs)"

definition Buffer_toString :: "byte list \<Rightarrow> nat list" where
  "Buffer_toString bytes = utf8_run utf8_idle bytes"

text \<open>
  \<^verbatim>\<open>Buffer.from(string)\<close> encodes the string as UTF-8; a code point that is no scalar value
  (a lone surrogate) is written as U+FFFD.
\<close>

definition utf8_bytes :: "nat \<Rightarrow> byte list" where
  "utf8_bytes c =
     (if c < 0x80 then [of_nat c]
      else if c < 0x800 then [of_nat (0xC0 + c div 64), of_nat (0x80 + c mod 64)]
      else if (0xD800 \<le> c \<and> c \<le> 0xDFFF) \<or> 0x110000 \<le> c then [0xEF, 0xBF, 0xBD]
      else if c < 0x10000
        then [of_nat (0xE0 + c div 4096), of_nat (0x80 + c div 64 mod 64), of_nat (0x80 + c mod 64)]
      else [of_nat (0xF0 + c div 262144), of_nat (0x80 + c div 4096 mod 64),
            of_nat (0x80 + c div 64 mod 64), of_nat (0x80 + c mod 64)])"

definition Buffer_from_string :: "nat list \<Rightarrow> byte list" where
  "Buffer_from_string s = concat (map utf8_bytes s)"

text \<open>The \<^verbatim>\<open>'ready'\<close> handler installed by \<^verbatim>\<open>resolveCustomEditor\<close>.\<close>

definition onReady :: "FitsProvider \<Rightarrow> 'p FitsFile \<Rightarrow> nat \<Rightarrow> FitsProvider" where
  "onReady p d webviewPanel =
     (if scheme (uri d) = ''untitled''
      then postMessage p webviewPanel ''init'' (UntitledBody True True)
      else postMessage p webviewPanel ''init'' (ValueBody (Buffer_toString (documentData d))))"

text \<open>The panel script: \<^verbatim>\<open>loadFits\<close> hands \<^verbatim>\<open>new Uint8Array(Buffer.from(data))\<close> to the viewer.\<close>

definition loadFits :: "nat list \<Rightarrow> byte list" where
  "loadFits data = Buffer_from_string data"

section \<open>Well-formed stores and sample values\<close>

text \<open>Both array references of a document point below the next unused address.\<close>

definition wf_doc :: "'p FitsFile \<Rightarrow> bool" where
  "wf_doc d = (edits d < nextRef d \<and> savedEdits d < nextRef d)"

text \<open>Concrete values on which the statements below are evaluated.\<close>

definition m31 :: Uri where
  "m31 = \<lparr>scheme = ''file'', path = ''/m31.fits''\<rparr>"

definition untitled1 :: Uri where
  "untitled1 = \<lparr>scheme = ''untitled'', path = ''new-1.fits''\<rparr>"

definition disk :: FileSystem where
  "disk = \<lparr>files = [m31 \<mapsto> [83, 73], \<lparr>scheme = ''file'', path = ''/backup/1''\<rparr> \<mapsto> [77]],
           writable = (\<lambda>u. True), trace = []\<rparr>"

text \<open>A value for the argument \<open>parse\<close>: the locations of two backup ids.\<close>

definition two_backups :: "string \<Rightarrow> Uri" where
  "two_backups b =
     (if b = ''file:/backup/1'' then \<lparr>scheme = ''file'', path = ''/backup/1''\<rparr>
      else \<lparr>scheme = ''file'', path = ''/backup/2''\<rparr>)"

definition red :: PawDrawEdit where
  "red = \<lparr>color = ''red'', stroke = [(1, 2)]\<rparr>"

definition blue :: PawDrawEdit where
  "blue = \<lparr>color = ''blue'', stroke = [(3, 4), (5, 6)]\<rparr>"

text \<open>A delegate that needs no provider, and a document using it.\<close>

definition fixed_delegate :: "unit \<Rightarrow> byte list outcome \<times> unit" where
  "fixed_delegate p = (Returned [83], p)"

definition plain_doc :: "unit FitsFile" where
  "plain_doc = new_FitsFile m31 [83, 73] fixed_delegate"

text \<open>
  A run of the bridge: request 1 is sent and answered; request 2 is sent to panel 7; while
  it is pending request 3 is sent, a stroke arrives, panel 8 is registered and request 3
  is answered; then the
  answer to request 2 arrives; later a second answer to request 2 arrives and request 4
  is sent.
\<close>

definition bridge0 :: "FitsProvider \<times> unit FitsFile" where
  "bridge0 = traffic_run (new_FitsProvider, plain_doc)
     [Request_sent 3 ''getFileData'' EmptyBody, Message_received (Response 1 [1])]"

definition bridge1 :: "FitsProvider \<times> unit FitsFile" where
  "bridge1 = traffic_run
     (snd (postMessageWithResponse (fst bridge0) 7 ''getFileData'' EmptyBody), snd bridge0)
     [Request_sent 8 ''getFileData'' EmptyBody, Message_received (Stroke red),
      Editor_resolved 8, Message_received (Response 3 [9])]"

definition bridge2 :: "FitsProvider \<times> unit FitsFile" where
  "bridge2 = onMessage bridge1 (Response 2 [83, 73])"

definition bridge3 :: "FitsProvider \<times> unit FitsFile" where
  "bridge3 = traffic_run bridge2
     [Message_received (Response 2 [0]), Request_sent 7 ''getFileData'' EmptyBody]"

text \<open>Panel 7 answers a request with three numbers, every other panel with one.\<close>

definition answering :: "nat \<Rightarrow> int list option" where
  "answering panel = (if panel = 7 then Some [83, 73, 300] else Some [0])"

definition m31_doc :: "FitsProvider FitsFile" where
  "m31_doc = new_FitsFile m31 [83, 73] (getFileData answering m31)"

definition two_panels :: FitsProvider where
  "two_panels = resolveCustomEditor (resolveCustomEditor new_FitsProvider m31_doc 7) m31_doc 8"

section \<open>Undo and redo\<close>

lemma edit_log_makeEdit: "edit_log (makeEdit d e) = edit_log d @ [e]"
  by (simp add: edit_log_def makeEdit_def array_push_def Let_def)

lemma onDidChange_makeEdit:
  "onDidChange (makeEdit d e) =
     onDidChange d @ [\<lparr>label = ''Stroke'', undo = UndoAction, redo = RedoAction e\<rparr>]"
  by (simp add: makeEdit_def array_push_def Let_def)

lemma documentData_makeEdit: "documentData (makeEdit d e) = documentData d"
  by (simp add: makeEdit_def array_push_def Let_def)

lemma documentData_invoke: "documentData (invoke a d) = documentData d"
  by (cases a) (simp_all add: fire_content_def array_pop_def array_push_def)

lemma edit_log_undo: "edit_log (invoke UndoAction d) = butlast (edit_log d)"
  by (simp add: edit_log_def fire_content_def array_pop_def)

lemma edit_log_redo: "edit_log (invoke (RedoAction e) d) = edit_log d @ [e]"
  by (simp add: edit_log_def fire_content_def array_push_def)

declare invoke.simps [simp del]

lemma edit_log_foldl_makeEdit: "edit_log (foldl makeEdit d es) = edit_log d @ es"
  by (induction es arbitrary: d) (simp_all add: edit_log_makeEdit)

lemma onDidChange_foldl_makeEdit:
  "onDidChange (foldl makeEdit d es) =
     onDidChange d @ map (\<lambda>e. \<lparr>label = ''Stroke'', undo = UndoAction, redo = RedoAction e\<rparr>) es"
  by (induction es arbitrary: d) (simp_all add: onDidChange_makeEdit)

lemma documentData_foldl_makeEdit: "documentData (foldl makeEdit d es) = documentData d"
  by (induction es arbitrary: d) (simp_all add: documentData_makeEdit)

lemma emitted_undos:
  "map undo (emitted d (foldl makeEdit d es)) = replicate (length es) UndoAction"
  by (simp add: emitted_def onDidChange_foldl_makeEdit comp_def map_replicate_const)

lemma edit_log_undo_all:
  "edit_log (invoke_all (replicate n UndoAction) d) = take (length (edit_log d) - n) (edit_log d)"
proof (induction n arbitrary: d)
  case 0
  show ?case by (simp add: invoke_all_def)
next
  case (Suc n)
  have "edit_log (invoke_all (replicate (Suc n) UndoAction) d)
          = edit_log (invoke_all (replicate n UndoAction) (invoke UndoAction d))"
    by (simp add: invoke_all_def)
  also have "\<dots> = take (length (butlast (edit_log d)) - n) (butlast (edit_log d))"
    by (simp add: Suc.IH edit_log_undo)
  also have "\<dots> = take (length (edit_log d) - Suc n) (edit_log d)"
    by (simp add: butlast_conv_take min_def)
  finally show ?case .
qed

lemma documentData_invoke_all: "documentData (invoke_all as d) = documentData d"
  unfolding invoke_all_def
  by (induction as arbitrary: d) (simp_all add: documentData_invoke)

text \<open>
  C4. Starting from any edit log, after any finite sequence of \<open>makeEdit\<close> calls, invoking
  the undo actions those calls emitted, latest first, gives back exactly the starting
  edit log; and no undo or redo action changes \<open>documentData\<close>.
\<close>

theorem C4_undo_restores_edit_log:
  "edit_log (invoke_all (rev (map undo (emitted d (foldl makeEdit d es)))) (foldl makeEdit d es))
     = edit_log d
   \<and> length (emitted d (foldl makeEdit d es)) = length es
   \<and> documentData (invoke a s) = documentData s"
proof -
  have "edit_log (invoke_all (replicate (length es) UndoAction) (foldl makeEdit d es)) = edit_log d"
    by (simp add: edit_log_undo_all edit_log_foldl_makeEdit)
  moreover have "length (emitted d (foldl makeEdit d es)) = length es"
    by (simp add: emitted_def onDidChange_foldl_makeEdit)
  ultimately show ?thesis
    by (simp add: emitted_undos documentData_invoke)
qed

text \<open>
  C5. For every edit \<open>e\<close> passed to \<open>makeEdit\<close>: the call appends \<open>e\<close> to the edit log and
  emits an undo and a redo action; invoking that undo action right away removes \<open>e\<close>
  again, and invoking that redo action right after it appends the very same edit \<open>e\<close>,
  which is then the last entry of the log. In whatever state they run, the undo action
  drops the last entry of the edit log and the redo action appends \<open>e\<close> to it.
\<close>

theorem C5_redo_after_undo_restores_edit:
  "edit_log (makeEdit d e) = edit_log d @ [e]
   \<and> edit_log (invoke (undo (last (onDidChange (makeEdit d e)))) (makeEdit d e)) = edit_log d
   \<and> edit_log (invoke (redo (last (onDidChange (makeEdit d e))))
                 (invoke (undo (last (onDidChange (makeEdit d e)))) (makeEdit d e)))
       = edit_log (invoke (undo (last (onDidChange (makeEdit d e)))) (makeEdit d e)) @ [e]
   \<and> last (edit_log (invoke (redo (last (onDidChange (makeEdit d e))))
                       (invoke (undo (last (onDidChange (makeEdit d e)))) (makeEdit d e)))) = e
   \<and> edit_log (invoke (undo (last (onDidChange (makeEdit d e)))) s) = butlast (edit_log s)
   \<and> edit_log (invoke (redo (last (onDidChange (makeEdit d e)))) s) = edit_log s @ [e]"
  by (simp add: onDidChange_makeEdit edit_log_redo edit_log_undo edit_log_makeEdit)

section \<open>The transport encoding\<close>

lemmas utf8_defs =
  loadFits_def Buffer_toString_def Buffer_from_string_def utf8_step_def utf8_lead_def
  utf8_idle_def utf8_bytes_def

lemma utf8_run_ascii:
  "(\<forall>b \<in> set bytes. unat b < 0x80) \<Longrightarrow> utf8_run utf8_idle bytes = map unat bytes"
  by (induction bytes) (simp_all add: utf8_step_def utf8_lead_def utf8_idle_def)

text \<open>Bytes below 128 do travel unchanged.\<close>

lemma transport_ascii_roundtrip:
  "(\<forall>b \<in> set bytes. unat b < 0x80) \<Longrightarrow> loadFits (Buffer_toString bytes) = bytes"
  unfolding loadFits_def Buffer_toString_def Buffer_from_string_def
  by (simp add: utf8_run_ascii) (induction bytes; simp add: utf8_bytes_def)

text \<open>
  C1. The claim: decoding what the provider encoded gives back every byte sequence. On
  the one-byte file \<open>[0xFF]\<close> the \<^verbatim>\<open>'init'\<close> message carries the single code point U+FFFD,
  and \<^verbatim>\<open>loadFits\<close> turns it into the three bytes \<open>EF BF BD\<close>: the byte is lost.
\<close>

theorem C1_transport_loses_bytes:
  "posted (onReady new_FitsProvider (new_FitsFile m31 [0xFF] fixed_delegate) 0)
     = [(0, Notify ''init'' (ValueBody [0xFFFD]))]
   \<and> loadFits [0xFFFD] = [0xEF, 0xBF, 0xBD]
   \<and> loadFits (Buffer_toString [0xFF]) \<noteq> [0xFF]"
  by (simp add: onReady_def new_FitsProvider_def new_FitsFile_def postMessage_def m31_def utf8_defs)

section \<open>The message bridge\<close>

lemma promises_post:
  "postMessageWithResponse p panel t b = (k, p1) \<Longrightarrow>
     k = length (promises p) \<and> promises p1 = promises p @ [None]
     \<and> callbacks p1 = (callbacks p)(requestId p \<mapsto> k)
     \<and> posted p1 = posted p @ [(panel, Request t (requestId p) b)]
     \<and> webviews p1 = webviews p \<and> requestId p1 = Suc (requestId p)"
  by (auto simp: postMessageWithResponse_def Let_def)

lemma resolve_fresh: "resolve_promise (length ps) v (ps @ [None]) = ps @ [Some v]"
  by (simp add: resolve_promise_def)

lemma resolve_settled: "resolve_promise (length ps) w (ps @ [Some v]) = ps @ [Some v]"
  by (simp add: resolve_promise_def)

text \<open>
  C2, as stated, fails: after the response to request 1 has arrived, the table of pending
  requests still maps 1 to its resolver.
\<close>

theorem C2_entry_not_removed:
  "callbacks (fst (onMessage
       (snd (postMessageWithResponse new_FitsProvider 0 ''getFileData'' EmptyBody), plain_doc)
       (Response 1 [83, 73])))
     1 = Some 0"
  by (simp add: postMessageWithResponse_def new_FitsProvider_def Let_def onResponse_def)

lemma length_resolve_promise [simp]: "length (resolve_promise k v ps) = length ps"
  by (simp add: resolve_promise_def split: option.splits)

lemma provider_step:
  "fst (traffic_step (p, d) (Request_sent panel t b)) = snd (postMessageWithResponse p panel t b)"
  "fst (traffic_step (p, d) (Message_posted panel t b)) = postMessage p panel t b"
  "fst (traffic_step (p, d) (Message_received (Response rid v))) = onResponse p rid v"
  "fst (traffic_step (p, d) (Message_received (Stroke e))) = p"
  "fst (traffic_step (p, d) (Message_received Ready)) = p"
  "fst (traffic_step (p, d) (Message_received (Other x))) = p"
  "fst (traffic_step (p, d) (Editor_resolved panel)) = resolveCustomEditor p d panel"
  by simp_all

lemma bridge_inv_new: "bridge_inv new_FitsProvider"
  by (simp add: bridge_inv_def new_FitsProvider_def)

lemma bridge_inv_request:
  "bridge_inv p \<Longrightarrow> bridge_inv (snd (postMessageWithResponse p panel t b))"
  by (auto simp: bridge_inv_def postMessageWithResponse_def Let_def less_Suc_eq)

lemma bridge_inv_post: "bridge_inv p \<Longrightarrow> bridge_inv (postMessage p panel t b)"
  by (simp add: bridge_inv_def postMessage_def)

lemma bridge_inv_resolve: "bridge_inv p \<Longrightarrow> bridge_inv (resolveCustomEditor p d panel)"
  by (simp add: bridge_inv_def resolveCustomEditor_def)

lemma bridge_inv_response: "bridge_inv p \<Longrightarrow> bridge_inv (onResponse p rid v)"
  by (simp add: bridge_inv_def onResponse_def split: option.splits)

lemma bridge_inv_step: "bridge_inv p \<Longrightarrow> bridge_inv (fst (traffic_step (p, d) ev))"
proof (cases ev)
  case (Message_received m)
  assume "bridge_inv p"
  then show ?thesis
    unfolding Message_received by (cases m) (simp_all only: provider_step bridge_inv_response)
qed (simp_all only: provider_step bridge_inv_request bridge_inv_post bridge_inv_resolve)

lemma bridge_inv_run: "bridge_inv p \<Longrightarrow> bridge_inv (fst (traffic_run (p, d) evs))"
proof (induction evs arbitrary: p d)
  case Nil
  then show ?case by (simp add: traffic_run_def)
next
  case (Cons ev evs)
  obtain p' d' where st: "traffic_step (p, d) ev = (p', d')"
    by (cases "traffic_step (p, d) ev")
  have "bridge_inv p'"
    using bridge_inv_step [OF Cons.prems, of d ev] by (simp add: st)
  then have "bridge_inv (fst (traffic_run (p', d') evs))"
    by (rule Cons.IH)
  then show ?case by (simp add: traffic_run_def st)
qed

lemma tracked_send:
  assumes "bridge_inv p0" and "postMessageWithResponse p0 panel t b = (k, p1)"
  shows "tracked (requestId p0) k p1 \<and> promises p1 ! k = None"
proof -
  have p1: "p1 = p0\<lparr>requestId := requestId p0 + 1,
                    callbacks := (callbacks p0)(requestId p0 \<mapsto> length (promises p0)),
                    promises := promises p0 @ [None],
                    posted := posted p0 @ [(panel, Request t (requestId p0) b)]\<rparr>"
    and k: "k = length (promises p0)"
    using assms(2) by (auto simp: postMessageWithResponse_def Let_def)
  have "callbacks p0 rid \<noteq> Some (length (promises p0))" for rid
    using assms(1) by (auto simp: bridge_inv_def)
  then show ?thesis
    by (simp add: p1 k tracked_def)
qed

lemma tracked_request:
  "tracked N k p \<Longrightarrow> tracked N k (snd (postMessageWithResponse p panel t b))"
  by (auto simp: tracked_def postMessageWithResponse_def Let_def)

lemma tracked_post: "tracked N k p \<Longrightarrow> tracked N k (postMessage p panel t b)"
  by (simp add: tracked_def postMessage_def)

lemma tracked_resolve: "tracked N k p \<Longrightarrow> tracked N k (resolveCustomEditor p d panel)"
  by (simp add: tracked_def resolveCustomEditor_def)

lemma tracked_response: "tracked N k p \<Longrightarrow> tracked N k (onResponse p rid v)"
  by (simp add: tracked_def onResponse_def split: option.splits)

lemma tracked_step: "tracked N k p \<Longrightarrow> tracked N k (fst (traffic_step (p, d) ev))"
proof (cases ev)
  case (Message_received m)
  assume "tracked N k p"
  then show ?thesis
    unfolding Message_received by (cases m) (simp_all only: provider_step tracked_response)
qed (simp_all only: provider_step tracked_request tracked_post tracked_resolve)

lemma resolve_other: "j \<noteq> k \<Longrightarrow> resolve_promise j v ps ! k = ps ! k"
  by (simp add: resolve_promise_def split: option.splits)

lemma resolve_keeps: "ps ! k = Some v \<Longrightarrow> resolve_promise j w ps ! k = Some v"
  by (cases "j = k") (auto simp: resolve_promise_def split: option.splits)

lemma nth_request:
  "k < length (promises p) \<Longrightarrow>
     promises (snd (postMessageWithResponse p panel t b)) ! k = promises p ! k"
  by (simp add: postMessageWithResponse_def Let_def nth_append)

lemma nth_post: "promises (postMessage p panel t b) = promises p"
  by (simp add: postMessage_def)

lemma nth_resolve: "promises (resolveCustomEditor p d panel) = promises p"
  by (simp add: resolveCustomEditor_def)

lemma nth_other_response:
  assumes "tracked N k p" and "rid \<noteq> N"
  shows "promises (onResponse p rid v) ! k = promises p ! k"
proof (cases "callbacks p rid")
  case None
  then show ?thesis by (simp add: onResponse_def)
next
  case (Some j)
  then have "j \<noteq> k"
    using assms by (auto simp: tracked_def)
  then show ?thesis
    by (simp add: onResponse_def Some resolve_other)
qed

lemma nth_settled_response:
  "promises p ! k = Some w \<Longrightarrow> promises (onResponse p rid v) ! k = Some w"
  by (simp add: onResponse_def resolve_keeps split: option.splits)

lemma pending_step:
  assumes "tracked N k p" and "promises p ! k = None"
    and "\<forall>body. ev \<noteq> Message_received (Response N body)"
  shows "promises (fst (traffic_step (p, d) ev)) ! k = None"
proof (cases ev)
  case (Request_sent panel t b)
  have "k < length (promises p)" using assms(1) by (simp add: tracked_def)
  then show ?thesis
    using assms(2) by (simp only: Request_sent provider_step nth_request)
next
  case (Message_posted panel t b)
  then show ?thesis
    using assms(2) by (simp only: provider_step nth_post)
next
  case (Editor_resolved panel)
  then show ?thesis
    using assms(2) by (simp only: provider_step nth_resolve)
next
  case (Message_received m)
  show ?thesis
  proof (cases m)
    case (Response rid v)
    then have "rid \<noteq> N"
      using assms(3) Message_received by auto
    then have "promises (onResponse p rid v) ! k = promises p ! k"
      by (rule nth_other_response [OF assms(1)])
    then show ?thesis
      using assms(2) by (simp only: Message_received Response provider_step)
  qed (use assms(2) Message_received in \<open>simp_all only: provider_step\<close>)
qed

lemma settled_step:
  assumes "tracked N k p" and "promises p ! k = Some w"
  shows "promises (fst (traffic_step (p, d) ev)) ! k = Some w"
proof (cases ev)
  case (Request_sent panel t b)
  have "k < length (promises p)" using assms(1) by (simp add: tracked_def)
  then show ?thesis
    using assms(2) by (simp only: Request_sent provider_step nth_request)
next
  case (Message_posted panel t b)
  then show ?thesis
    using assms(2) by (simp only: provider_step nth_post)
next
  case (Editor_resolved panel)
  then show ?thesis
    using assms(2) by (simp only: provider_step nth_resolve)
next
  case (Message_received m)
  show ?thesis
  proof (cases m)
    case (Response rid v)
    then show ?thesis
      using assms(2) by (simp only: Message_received provider_step nth_settled_response)
  qed (use assms(2) Message_received in \<open>simp_all only: provider_step\<close>)
qed

lemma tracked_run: "tracked N k p \<Longrightarrow> tracked N k (fst (traffic_run (p, d) evs))"
proof (induction evs arbitrary: p d)
  case Nil
  then show ?case by (simp add: traffic_run_def)
next
  case (Cons ev evs)
  obtain p' d' where st: "traffic_step (p, d) ev = (p', d')"
    by (cases "traffic_step (p, d) ev")
  have "tracked N k p'"
    using tracked_step [OF Cons.prems, of d ev] by (simp add: st)
  then have "tracked N k (fst (traffic_run (p', d') evs))"
    by (rule Cons.IH)
  then show ?case by (simp add: traffic_run_def st)
qed

lemma pending_run:
  assumes "tracked N k p" and "promises p ! k = None"
    and "\<forall>body. Message_received (Response N body) \<notin> set evs"
  shows "promises (fst (traffic_run (p, d) evs)) ! k = None"
  using assms
proof (induction evs arbitrary: p d)
  case Nil
  then show ?case by (simp add: traffic_run_def)
next
  case (Cons ev evs)
  obtain p' d' where st: "traffic_step (p, d) ev = (p', d')"
    by (cases "traffic_step (p, d) ev")
  have quiet: "\<forall>body. ev \<noteq> Message_received (Response N body)"
    using Cons.prems(3) by auto
  have rest: "\<forall>body. Message_received (Response N body) \<notin> set evs"
    using Cons.prems(3) by auto
  have t: "tracked N k p'"
    using tracked_step [OF Cons.prems(1), of d ev] by (simp add: st)
  have n: "promises p' ! k = None"
    using pending_step [OF Cons.prems(1,2) quiet, of d] by (simp add: st)
  have "promises (fst (traffic_run (p', d') evs)) ! k = None"
    using t n rest by (rule Cons.IH)
  then show ?case by (simp add: traffic_run_def st)
qed

lemma settled_run:
  assumes "tracked N k p" and "promises p ! k = Some w"
  shows "promises (fst (traffic_run (p, d) evs)) ! k = Some w"
  using assms
proof (induction evs arbitrary: p d)
  case Nil
  then show ?case by (simp add: traffic_run_def)
next
  case (Cons ev evs)
  obtain p' d' where st: "traffic_step (p, d) ev = (p', d')"
    by (cases "traffic_step (p, d) ev")
  have t: "tracked N k p'"
    using tracked_step [OF Cons.prems(1), of d ev] by (simp add: st)
  have n: "promises p' ! k = Some w"
    using settled_step [OF Cons.prems, of d ev] by (simp add: st)
  have "promises (fst (traffic_run (p', d') evs)) ! k = Some w"
    using t n by (rule Cons.IH)
  then show ?case by (simp add: traffic_run_def st)
qed

lemma response_pending:
  assumes "tracked N k p" and "promises p ! k = None"
  shows "onResponse p N P = p\<lparr>promises := (promises p)[k := Some P]\<rparr>"
  using assms by (simp add: tracked_def onResponse_def resolve_promise_def)

lemma response_settled:
  assumes "tracked N k p" and "promises p ! k = Some v"
  shows "onResponse p N P = p"
  using assms by (simp add: tracked_def onResponse_def resolve_promise_def)

text \<open>
  C2, amended. Take a provider in any state its bridge can reach, and a request sent
  there with id \<open>N\<close>. Whatever else happens on the bridge before the response carrying \<open>N\<close>
  arrives, the caller's promise is pending until then, and the response with payload \<open>P\<close>
  fulfils that promise, and no other, with exactly \<open>P\<close>. The entry for \<open>N\<close> is not removed
  from the table of pending requests. Whatever happens on the bridge afterwards, the
  promise keeps \<open>P\<close>, and a second response carrying \<open>N\<close> calls the same resolver again
  and changes nothing, neither in the provider nor in the document.
\<close>

theorem C2_response_resolves_once:
  assumes start: "traffic_run (new_FitsProvider, d0) evs0 = (p0, da)"
    and send: "postMessageWithResponse p0 panel t b = (k, p1)"
    and quiet: "\<forall>body. Message_received (Response (requestId p0) body) \<notin> set evs1"
    and before: "traffic_run (p1, da) evs1 = (p, d)"
    and arrival: "onMessage (p, d) (Response (requestId p0) P) = (p2, d2)"
    and after: "traffic_run (p2, d2) evs2 = (p', d')"
  shows "k < length (promises p) \<and> promises p ! k = None
       \<and> promises p2 = (promises p)[k := Some P] \<and> promises p2 ! k = Some P
       \<and> callbacks p2 = callbacks p \<and> callbacks p2 (requestId p0) = Some k \<and> d2 = d
       \<and> promises p' ! k = Some P
       \<and> callbacks p' (requestId p0) = Some k
       \<and> onMessage (p', d') (Response (requestId p0) P') = (p', d')"
proof -
  let ?N = "requestId p0"
  have "bridge_inv (fst (traffic_run (new_FitsProvider, d0) evs0))"
    by (rule bridge_inv_run) (rule bridge_inv_new)
  then have inv0: "bridge_inv p0"
    by (simp add: start)
  note sent = tracked_send [OF inv0 send]
  have tp: "tracked ?N k p"
    using tracked_run [of ?N k p1 da evs1] sent by (simp add: before)
  have np: "promises p ! k = None"
    using pending_run [of ?N k p1 evs1 da] sent quiet by (simp add: before)
  have p2: "p2 = p\<lparr>promises := (promises p)[k := Some P]\<rparr>" and d2: "d2 = d"
    using arrival response_pending [OF tp np, of P] by auto
  have k: "k < length (promises p)"
    using tp by (simp add: tracked_def)
  have tp2: "tracked ?N k p2"
    using tp by (simp add: p2 tracked_def)
  have sp2: "promises p2 ! k = Some P"
    using k by (simp add: p2)
  have tp': "tracked ?N k p'"
    using tracked_run [of ?N k p2 d2 evs2] tp2 by (simp add: after)
  have sp': "promises p' ! k = Some P"
    using settled_run [OF tp2 sp2, of d2 evs2] by (simp add: after)
  have again: "onMessage (p', d') (Response ?N P') = (p', d')"
    using response_settled [OF tp' sp', of P'] by simp
  show ?thesis
    using k np p2 d2 sp2 sp' again tp tp' by (simp add: tracked_def)
qed


theorem C2_response_resolves_once_witness:
  "requestId (fst bridge0) = 2
   \<and> promises (fst bridge1) = [Some [1], None, Some [9]]
   \<and> promises (fst bridge2) = [Some [1], Some [83, 73], Some [9]]
   \<and> callbacks (fst bridge2) 2 = Some 1
   \<and> promises (fst bridge3) ! 1 = Some [83, 73]
   \<and> onMessage bridge3 (Response 2 [5]) = bridge3"
proof -
  let ?sent = "postMessageWithResponse (fst bridge0) 7 ''getFileData'' EmptyBody"
  have b0: "promises (fst bridge0) = [Some [1]]" "requestId (fst bridge0) = 2"
    by (simp_all add: bridge0_def traffic_run_def postMessageWithResponse_def Let_def
        onResponse_def resolve_promise_def new_FitsProvider_def)
  have k: "fst ?sent = 1"
    by (simp add: postMessageWithResponse_def Let_def b0)
  have quiet: "\<forall>body. Message_received (Response (requestId (fst bridge0)) body)
                 \<notin> set [Request_sent 8 ''getFileData'' EmptyBody, Message_received (Stroke red),
                         Editor_resolved 8, Message_received (Response 3 [9])]"
    by (simp add: b0)
  have b1: "promises (fst bridge1) = [Some [1], None, Some [9]]"
    by (simp add: bridge1_def bridge0_def traffic_run_def postMessageWithResponse_def Let_def
        onResponse_def resolve_promise_def new_FitsProvider_def resolveCustomEditor_def)
  have start: "traffic_run (new_FitsProvider, plain_doc)
                  [Request_sent 3 ''getFileData'' EmptyBody, Message_received (Response 1 [1])]
                = (fst bridge0, snd bridge0)"
    by (simp add: bridge0_def)
  have send: "?sent = (fst ?sent, snd ?sent)"
    by simp
  have before: "traffic_run (snd ?sent, snd bridge0)
                  [Request_sent 8 ''getFileData'' EmptyBody, Message_received (Stroke red),
                   Editor_resolved 8, Message_received (Response 3 [9])]
                = (fst bridge1, snd bridge1)"
    by (simp add: bridge1_def)
  have arrival: "onMessage (fst bridge1, snd bridge1) (Response (requestId (fst bridge0)) [83, 73])
                   = (fst bridge2, snd bridge2)"
    by (simp add: bridge2_def b0)
  have after: "traffic_run (fst bridge2, snd bridge2)
                 [Message_received (Response 2 [0]), Request_sent 7 ''getFileData'' EmptyBody]
               = (fst bridge3, snd bridge3)"
    by (simp add: bridge3_def)
  note fact = C2_response_resolves_once [OF start send quiet before arrival after, where P' = "[5]"]
  have "promises (fst bridge2) = (promises (fst bridge1))[1 := Some [83, 73]]
        \<and> callbacks (fst bridge2) 2 = Some 1
        \<and> promises (fst bridge3) ! 1 = Some [83, 73]
        \<and> onMessage bridge3 (Response 2 [5]) = bridge3"
    using fact unfolding k b0 by (elim conjE) simp
  then show ?thesis
    by (simp add: b0 b1)
qed

section \<open>Saving and reverting\<close>

lemma wf_new: "wf_doc (new_FitsFile u c dlg)"
  by (simp add: wf_doc_def new_FitsFile_def)

lemma wf_makeEdit: "wf_doc (makeEdit d e) = wf_doc d"
  by (simp add: wf_doc_def makeEdit_def array_push_def Let_def)

lemma wf_invoke: "wf_doc (invoke a d) = wf_doc d"
  by (cases a) (simp_all add: wf_doc_def invoke.simps fire_content_def array_pop_def array_push_def)

lemma wf_snapshot: "wf_doc d \<Longrightarrow> wf_doc (snapshot_edits d)"
  by (simp add: wf_doc_def snapshot_edits_def)

lemma wf_save: "wf_doc d \<Longrightarrow> wf_doc (fst (snd (save d c env)))"
  by (simp add: save_def wf_snapshot split: prod.splits outcome.splits)

lemma wf_revert: "wf_doc d \<Longrightarrow> wf_doc (fst (snd (revert d fs)))"
  by (simp add: revert_def wf_doc_def fire_content_def split: prod.splits outcome.splits)

lemma refs_makeEdit: "edits (makeEdit d e) = edits d \<and> savedEdits (makeEdit d e) = savedEdits d"
  by (simp add: makeEdit_def array_push_def Let_def)

lemma saved_log_makeEdit:
  "edits d \<noteq> savedEdits d \<Longrightarrow> saved_log (makeEdit d e) = saved_log d"
  by (simp add: saved_log_def makeEdit_def array_push_def Let_def)

lemma saved_log_foldl_makeEdit:
  "edits d \<noteq> savedEdits d \<Longrightarrow> saved_log (foldl makeEdit d es) = saved_log d"
  by (induction es arbitrary: d) (simp_all add: saved_log_makeEdit refs_makeEdit)

lemma save_Returned:
  "save d c env = (Returned (), d1, env1) \<Longrightarrow> d1 = snapshot_edits d"
  by (auto simp: save_def split: prod.splits outcome.splits)

lemma snapshot_fresh:
  "wf_doc d \<Longrightarrow> edits (snapshot_edits d) \<noteq> savedEdits (snapshot_edits d)
     \<and> saved_log (snapshot_edits d) = edit_log d
     \<and> edit_log (snapshot_edits d) = edit_log d"
  by (auto simp: wf_doc_def snapshot_edits_def saved_log_def edit_log_def)

lemma revert_Returned:
  assumes "readFile fs (uri d) = (Returned bytes, fs')"
  shows "revert d fs =
           (Returned (),
            fire_content (Some bytes) (d\<lparr>documentData := bytes, edits := savedEdits d\<rparr>), fs')"
  using assms by (simp add: revert_def)

text \<open>A save whose write was skipped by the cancellation replaces the snapshot all the same.\<close>

lemma save_cancelled_still_snapshots:
  "delegate d p = (Returned fileData, p') \<Longrightarrow>
     save d True (p, fs) = (Returned (), snapshot_edits d, p', fs)"
  by (simp add: save_def saveAs_def)

text \<open>
  C3. The claim: \<open>savedEdits\<close> is the edit log of the most recent successful save, and
  only a successful save changes it. After a save of the empty log and a revert, one
  \<open>makeEdit\<close> puts its edit into \<open>savedEdits\<close> as well: \<open>revert\<close> made \<open>edits\<close> and
  \<open>savedEdits\<close> the same array.
\<close>

theorem C3_revert_aliases_saved_snapshot:
  "(case save plain_doc False ((), disk) of
      (r1, d1, env1) \<Rightarrow>
        (case revert d1 (snd env1) of
           (r2, d2, fs2) \<Rightarrow>
             r1 = Returned () \<and> r2 = Returned () \<and> saved_log d1 = [] \<and> saved_log d2 = []
             \<and> saved_log (makeEdit d2 red) = [red]))"
  by (simp add: plain_doc_def disk_def m31_def fixed_delegate_def save_def saveAs_def
      fs_writeFile_def new_FitsFile_def snapshot_edits_def revert_def readFile_def
      fs_readFile_def fire_content_def saved_log_def makeEdit_def array_push_def Let_def)

text \<open>
  C6. When the cancellation is already requested at the moment the delegate has produced
  the bytes, \<open>saveAs\<close> returns and the storage is as it was: no file changed and no
  storage operation ran. Whatever the delegate does, a cancelled \<open>saveAs\<close> leaves the
  storage alone.
\<close>

theorem C6_cancelled_saveAs_writes_nothing:
  "delegate d p = (Returned fileData, p') \<Longrightarrow>
     saveAs d targetResource True (p, fs) = (Returned (), p', fs)
     \<and> snd (snd (saveAs d targetResource True env)) = snd env"
  by (simp add: saveAs_def split: prod.splits outcome.splits)

theorem C6_cancelled_saveAs_witness:
  "delegate plain_doc () = (Returned [83], ())
   \<and> saveAs plain_doc m31 True ((), disk) = (Returned (), (), disk)
   \<and> saveAs plain_doc m31 False ((), disk) \<noteq> (Returned (), (), disk)"
proof -
  have dlg: "delegate plain_doc () = (Returned [83], ())"
    by (simp add: plain_doc_def new_FitsFile_def fixed_delegate_def)
  have "trace (snd (snd (saveAs plain_doc m31 False ((), disk)))) = [WriteOp m31 [83]]"
    by (simp add: saveAs_def dlg fs_writeFile_def disk_def)
  moreover have "trace disk = []"
    by (simp add: disk_def)
  ultimately have "saveAs plain_doc m31 False ((), disk) \<noteq> (Returned (), (), disk)"
    by auto
  then show ?thesis
    using dlg C6_cancelled_saveAs_writes_nothing [OF dlg, of m31 disk] by simp
qed

section \<open>Opening a document\<close>

text \<open>
  C7. \<open>create\<close> reads the backup location when a backup id is given and the resource
  otherwise. When the location read has the scheme \<open>untitled\<close>, the document holds no
  bytes and the storage was not touched. Otherwise the document holds the bytes the
  storage has there, and \<open>create\<close> fails, with the error of the storage, exactly when
  the storage has nothing there.
\<close>

theorem C7_create_reads_backup_or_resource:
  assumes "dataFile = (case backupId of Some b \<Rightarrow> parse b | None \<Rightarrow> u)"
  shows "(scheme dataFile = ''untitled'' \<longrightarrow>
            (\<exists>d. create parse fs u backupId dlg = (Returned d, fs) \<and> documentData d = [] \<and> uri d = u))
       \<and> (scheme dataFile \<noteq> ''untitled'' \<longrightarrow> files fs dataFile = Some bytes \<longrightarrow>
            (\<exists>d. create parse fs u backupId dlg = (Returned d, fs\<lparr>trace := trace fs @ [ReadOp dataFile]\<rparr>)
                 \<and> documentData d = bytes \<and> uri d = u))
       \<and> ((\<exists>e. fst (create parse fs u backupId dlg) = Threw e)
            \<longleftrightarrow> scheme dataFile \<noteq> ''untitled'' \<and> files fs dataFile = None)
       \<and> (fst (create parse fs u backupId dlg) = Threw FileSystemError
            \<longleftrightarrow> scheme dataFile \<noteq> ''untitled'' \<and> files fs dataFile = None)"
  using assms
  by (auto simp: create_def readFile_def fs_readFile_def new_FitsFile_def Let_def
      split: option.splits)

theorem C7_create_witness:
  "(\<exists>d. create two_backups disk m31 (Some ''file:/backup/1'') fixed_delegate
           = (Returned d, disk\<lparr>trace := [ReadOp \<lparr>scheme = ''file'', path = ''/backup/1''\<rparr>]\<rparr>)
         \<and> documentData d = [77] \<and> uri d = m31)
   \<and> (\<exists>d. create two_backups disk m31 None fixed_delegate = (Returned d, disk\<lparr>trace := [ReadOp m31]\<rparr>)
         \<and> documentData d = [83, 73] \<and> uri d = m31)
   \<and> (\<exists>d. create two_backups disk untitled1 None fixed_delegate = (Returned d, disk)
         \<and> documentData d = [] \<and> uri d = untitled1)
   \<and> fst (create two_backups disk m31 (Some ''file:/backup/2'') fixed_delegate) = Threw FileSystemError"
proof -
  have parse1: "two_backups ''file:/backup/1'' = \<lparr>scheme = ''file'', path = ''/backup/1''\<rparr>"
    and parse2: "two_backups ''file:/backup/2'' = \<lparr>scheme = ''file'', path = ''/backup/2''\<rparr>"
    by (simp_all add: two_backups_def)
  have "\<exists>d. create two_backups disk m31 (Some ''file:/backup/1'') fixed_delegate
           = (Returned d, disk\<lparr>trace := [ReadOp \<lparr>scheme = ''file'', path = ''/backup/1''\<rparr>]\<rparr>)
         \<and> documentData d = [77] \<and> uri d = m31"
    using C7_create_reads_backup_or_resource
      [where dataFile = "\<lparr>scheme = ''file'', path = ''/backup/1''\<rparr>"
         and parse = two_backups
         and backupId = "Some ''file:/backup/1''" and u = m31 and fs = disk
         and dlg = fixed_delegate and bytes = "[77]"]
    by (simp add: parse1 disk_def m31_def)
  moreover have "\<exists>d. create two_backups disk m31 None fixed_delegate = (Returned d, disk\<lparr>trace := [ReadOp m31]\<rparr>)
         \<and> documentData d = [83, 73] \<and> uri d = m31"
    using C7_create_reads_backup_or_resource
      [where dataFile = m31 and parse = two_backups and backupId = None and u = m31 and fs = disk
         and dlg = fixed_delegate and bytes = "[83, 73]"]
    by (simp add: disk_def m31_def)
  moreover have "\<exists>d. create two_backups disk untitled1 None fixed_delegate = (Returned d, disk)
         \<and> documentData d = [] \<and> uri d = untitled1"
    using C7_create_reads_backup_or_resource
      [where dataFile = untitled1 and parse = two_backups and backupId = None
         and u = untitled1 and fs = disk
         and dlg = fixed_delegate]
    by (simp add: untitled1_def)
  moreover have "fst (create two_backups disk m31 (Some ''file:/backup/2'') fixed_delegate) = Threw FileSystemError"
    using C7_create_reads_backup_or_resource
      [where dataFile = "\<lparr>scheme = ''file'', path = ''/backup/2''\<rparr>"
         and parse = two_backups
         and backupId = "Some ''file:/backup/2''" and u = m31 and fs = disk
         and dlg = fixed_delegate]
    by (simp add: parse2 disk_def m31_def)
  ultimately show ?thesis by blast
qed

section \<open>Reverting\<close>

text \<open>
  What \<open>revert\<close> does when the resource can be read: the edit log becomes what
  \<open>savedEdits\<close> held, \<open>documentData\<close> the bytes just read, and one content event carrying
  these bytes and the new edit log is fired. When the document is the result of a save
  followed by \<open>makeEdit\<close> calls only, that edit log is the one the save captured.
\<close>

lemma revert_after_save_and_edits:
  assumes "readFile fs (uri d) = (Returned bytes, fs')"
  shows "\<exists>d'. revert d fs = (Returned (), d', fs')
           \<and> edit_log d' = saved_log d
           \<and> documentData d' = bytes
           \<and> onDidChangeDocument d' =
               onDidChangeDocument d @ [\<lparr>content = Some bytes, event_edits = edits d'\<rparr>]
           \<and> (\<forall>d0 c env d1 env1 es.
                 wf_doc d0 \<and> save d0 c env = (Returned (), d1, env1) \<and> d = foldl makeEdit d1 es
                 \<longrightarrow> edit_log d' = edit_log d0)"
proof -
  let ?d' = "fire_content (Some bytes) (d\<lparr>documentData := bytes, edits := savedEdits d\<rparr>)"
  have log: "edit_log ?d' = saved_log d"
    by (simp add: edit_log_def saved_log_def fire_content_def)
  have captured: "saved_log d = edit_log d0"
    if "wf_doc d0" "save d0 c env = (Returned (), d1, env1)" "d = foldl makeEdit d1 es"
    for d0 :: "'a FitsFile" and c env d1 env1 es
  proof -
    have "d1 = snapshot_edits d0" using that(2) by (rule save_Returned)
    then show ?thesis
      using snapshot_fresh [OF that(1)] that(3) by (simp add: saved_log_foldl_makeEdit)
  qed
  have "revert d fs = (Returned (), ?d', fs')"
    using assms by (rule revert_Returned)
  moreover have "documentData ?d' = bytes"
    by (simp add: fire_content_def)
  moreover have "onDidChangeDocument ?d' =
      onDidChangeDocument d @ [\<lparr>content = Some bytes, event_edits = edits ?d'\<rparr>]"
    by (simp add: fire_content_def)
  ultimately show ?thesis
    using log captured by (intro exI [of _ ?d']) (simp only: simp_thms, blast)
qed

text \<open>
  C8. The claim: after any edits since the last save, \<open>revert\<close> makes the edit log the one
  captured at that save. Save the empty log, make the edit \<open>red\<close>, revert, make the edit
  \<open>blue\<close>, revert again: every step returns, the first revert gives the empty log back,
  and the second one leaves \<open>blue\<close> in the edit log, because the first revert made
  \<open>edits\<close> and \<open>savedEdits\<close> the same array and \<open>blue\<close> was pushed into it. The bytes are
  the ones on the storage, and each revert fired one content event.
\<close>

theorem C8_second_revert_keeps_edit:
  "(case save plain_doc False ((), disk) of
      (r1, d1, env1) \<Rightarrow>
        (case revert (makeEdit d1 red) (snd env1) of
           (r2, d2, fs2) \<Rightarrow>
             (case revert (makeEdit d2 blue) fs2 of
                (r3, d3, fs3) \<Rightarrow>
                  r1 = Returned () \<and> r2 = Returned () \<and> r3 = Returned ()
                  \<and> edit_log d1 = [] \<and> saved_log d1 = []
                  \<and> edit_log (makeEdit d1 red) = [red] \<and> edit_log d2 = []
                  \<and> edit_log (makeEdit d2 blue) = [blue] \<and> edit_log d3 = [blue]
                  \<and> documentData d3 = [83] \<and> files fs3 m31 = Some [83]
                  \<and> length (onDidChangeDocument d3) = 2)))"
  by (simp add: plain_doc_def disk_def m31_def fixed_delegate_def save_def saveAs_def
      fs_writeFile_def new_FitsFile_def snapshot_edits_def revert_def readFile_def
      fs_readFile_def fire_content_def saved_log_def edit_log_def makeEdit_def
      array_push_def Let_def)

section \<open>The delegate of \<^verbatim>\<open>openCustomDocument\<close>\<close>

lemma get_empty_iff:
  "WebviewCollection_get ws u = [] \<longleftrightarrow> Uri_toString u \<notin> fst ` set ws"
  by (auto simp: WebviewCollection_get_def filter_empty_conv image_iff)

lemma get_add:
  "WebviewCollection_get (WebviewCollection_add ws u' panel) u =
     WebviewCollection_get ws u @ (if Uri_toString u' = Uri_toString u then [panel] else [])"
  by (simp add: WebviewCollection_get_def WebviewCollection_add_def)

lemma getFileData_Threw:
  "fst (getFileData reply u p) = Threw e \<longleftrightarrow>
     e = NoWebviewError \<and> WebviewCollection_get (webviews p) u = []"
  by (auto simp: getFileData_def Let_def split: list.splits prod.splits option.splits)

lemma getFileData_first_panel:
  assumes "WebviewCollection_get (webviews p) u = first # others"
  shows "posted (snd (getFileData reply u p)) =
           posted p @ [(first, Request ''getFileData'' (requestId p) EmptyBody)]"
    and "fst (getFileData reply u p) =
           (case reply first of None \<Rightarrow> Pending | Some b \<Rightarrow> Returned (map word_of_int b))"
  using assms
  by (auto simp: getFileData_def postMessageWithResponse_def onResponse_def
      resolve_promise_def Let_def split: option.splits)

lemma openCustomDocument_delegate:
  "openCustomDocument parse reply fs u backupId = (Returned d, fs') \<Longrightarrow>
     delegate d = getFileData reply u \<and> uri d = u"
  by (auto simp: openCustomDocument_def create_def new_FitsFile_def Let_def
      split: prod.splits outcome.splits)

text \<open>An error of the delegate is the error of \<open>saveAs\<close>, \<open>save\<close> and \<open>backup\<close>.\<close>

lemma delegate_error_propagates:
  assumes "fst (delegate d p) = Threw e"
  shows "fst (saveAs d target c (p, fs)) = Threw e"
    and "fst (save d c (p, fs)) = Threw e"
    and "fst (backup d target c (p, fs)) = Threw e"
  using assms
  by (auto simp: saveAs_def save_def backup_def split: prod.splits outcome.splits)

text \<open>A disposed panel is no longer found under any resource.\<close>

lemma get_dispose:
  "panel \<notin> set (WebviewCollection_get (WebviewCollection_dispose ws panel) u)"
  by (auto simp: WebviewCollection_get_def WebviewCollection_dispose_def)

lemma open_m31:
  "openCustomDocument two_backups answering disk m31 None = (Returned m31_doc, disk\<lparr>trace := [ReadOp m31]\<rparr>)"
  by (simp add: openCustomDocument_def create_def readFile_def fs_readFile_def m31_doc_def
      disk_def m31_def Let_def)

lemma get_two_panels: "WebviewCollection_get (webviews two_panels) (uri m31_doc) = [7, 8]"
  by (simp add: two_panels_def resolveCustomEditor_def new_FitsProvider_def
      WebviewCollection_get_def WebviewCollection_add_def)

text \<open>
  C9. For a document opened by the provider, the delegate's \<open>getFileData\<close> throws exactly
  when the webview collection has no entry under the document's resource; with an entry
  there it throws nothing at all.
\<close>

theorem C9_getFileData_fails_iff_no_panel:
  assumes "openCustomDocument parse reply fs u backupId = (Returned d, fs')"
  shows "(fst (delegate d p) = Threw NoWebviewError
            \<longleftrightarrow> Uri_toString (uri d) \<notin> fst ` set (webviews p))
       \<and> ((\<exists>e. fst (delegate d p) = Threw e)
            \<longleftrightarrow> Uri_toString (uri d) \<notin> fst ` set (webviews p))"
  using openCustomDocument_delegate [OF assms]
  by (simp add: getFileData_Threw get_empty_iff)

theorem C9_getFileData_witness:
  "openCustomDocument two_backups answering disk m31 None = (Returned m31_doc, disk\<lparr>trace := [ReadOp m31]\<rparr>)
   \<and> fst (delegate m31_doc new_FitsProvider) = Threw NoWebviewError
   \<and> fst (delegate m31_doc two_panels) \<noteq> Threw NoWebviewError"
proof -
  have none: "webviews new_FitsProvider = []"
    by (simp add: new_FitsProvider_def)
  have two: "Uri_toString (uri m31_doc) \<in> fst ` set (webviews two_panels)"
    using get_empty_iff [of "webviews two_panels" "uri m31_doc"] by (simp add: get_two_panels)
  show ?thesis
    using C9_getFileData_fails_iff_no_panel [OF open_m31, of new_FitsProvider]
      C9_getFileData_fails_iff_no_panel [OF open_m31, of two_panels]
    by (simp add: open_m31 none two)
qed

text \<open>
  C10. For a document opened by the provider whose resource has two or more panels in
  the webview collection, \<open>getFileData\<close> posts one request, to the first of them in
  insertion order, and its result is what that panel answers: no other panel is asked,
  and a panel added later does not become the first.
\<close>

theorem C10_getFileData_asks_first_panel_only:
  assumes "openCustomDocument parse reply fs u backupId = (Returned d, fs')"
    and "WebviewCollection_get (webviews p) (uri d) = first # others"
    and "others \<noteq> []"
  shows "posted (snd (delegate d p)) =
           posted p @ [(first, Request ''getFileData'' (requestId p) EmptyBody)]
       \<and> fst (delegate d p) =
           (case reply first of None \<Rightarrow> Pending | Some b \<Rightarrow> Returned (map word_of_int b))
       \<and> hd (WebviewCollection_get (WebviewCollection_add (webviews p) u' panel) (uri d)) = first"
  using openCustomDocument_delegate [OF assms(1)] getFileData_first_panel [OF assms(2)] assms(2)
  by (auto simp: get_add)

theorem C10_getFileData_witness:
  "WebviewCollection_get (webviews two_panels) (uri m31_doc) = [7, 8]
   \<and> posted (snd (delegate m31_doc two_panels)) = [(7, Request ''getFileData'' 1 EmptyBody)]
   \<and> fst (delegate m31_doc two_panels) = Returned [83, 73, 44]"
proof -
  have "posted two_panels = []" "requestId two_panels = 1"
    by (simp_all add: two_panels_def resolveCustomEditor_def new_FitsProvider_def)
  moreover have "answering 7 = Some [83, 73, 300]"
    by (simp add: answering_def)
  ultimately show ?thesis
    using C10_getFileData_asks_first_panel_only [OF open_m31 get_two_panels, of m31 0]
    by (simp add: get_two_panels)
qed

end
